theory Spec2Isabelle
  imports Main "HOL-Library.Sublist"
begin

section \<open>Go strings and the functions of package \<open>strings\<close> that the readers call\<close>

text \<open>
  A Go \<open>string\<close> is a sequence of bytes, and \<open>string(a)\<close> of a \<open>[]byte\<close> copies
  all of its bytes: both are \<open>char list\<close> here (\<open>char\<close> has 256 values).
\<close>

definition NL :: char where "NL = CHR 0x0A"
definition CR :: char where "CR = CHR 0x0D"
definition NUL :: char where "NUL = CHR 0x00"

text \<open>
  \<open>strings.Index(s, sep)\<close>: the byte offset of the first occurrence of \<open>sep\<close> in
  \<open>s\<close>; Go's \<open>-1\<close> is \<open>None\<close>.
\<close>

fun strings_Index :: "string \<Rightarrow> string \<Rightarrow> nat option" where
  "strings_Index [] sep = (if sep = [] then Some 0 else None)"
| "strings_Index (c # cs) sep =
     (if prefix sep (c # cs) then Some 0 else map_option Suc (strings_Index cs sep))"

definition strings_Contains :: "string \<Rightarrow> string \<Rightarrow> bool" where
  "strings_Contains s substr = (strings_Index s substr \<noteq> None)"

text \<open>
  \<open>strings.Split(s, sep)\<close> (\<open>genSplit\<close> with no limit): cut at every leftmost,
  non-overlapping occurrence of \<open>sep\<close>; the last element is what is left. The readers
  only pass the non-empty separators \<open>"\n"\<close> and \<open>"\r\n"\<close>; for the empty
  separator Go explodes \<open>s\<close> into its UTF-8 sequences, which is bytewise here.
\<close>

function strings_Split :: "string \<Rightarrow> string \<Rightarrow> string list" where
  "strings_Split s sep =
     (if sep = [] then map (\<lambda>c. [c]) s
      else case strings_Index s sep of
             None \<Rightarrow> [s]
           | Some m \<Rightarrow> take m s # strings_Split (drop (m + length sep) s) sep)"
  by pat_completeness auto

lemma strings_Index_Some_nonempty:
  "strings_Index s sep = Some m \<Longrightarrow> sep \<noteq> [] \<Longrightarrow> s \<noteq> []"
  by (cases s) auto

termination strings_Split
proof (relation "measure (\<lambda>(s, sep). length s)")
  show "wf (measure (\<lambda>(s, sep). length s))" by simp
next
  fix s sep :: string and m :: nat
  assume "sep \<noteq> []" and "strings_Index s sep = Some m"
  then have "s \<noteq> []" by (auto dest: strings_Index_Some_nonempty)
  with \<open>sep \<noteq> []\<close> show "((drop (m + length sep) s, sep), (s, sep)) \<in> measure (\<lambda>(s, sep). length s)"
    by (cases sep) auto
qed

declare strings_Split.simps [simp del]

text \<open>\<open>strings.Join(elems, sep)\<close>.\<close>

fun strings_Join :: "string list \<Rightarrow> string \<Rightarrow> string" where
  "strings_Join [] sep = []"
| "strings_Join [x] sep = x"
| "strings_Join (x # y # ys) sep = x @ sep @ strings_Join (y # ys) sep"

section \<open>The byte source\<close>

text \<open>
  \<open>f.Read(a)\<close> of an \<open>io.ReadCloser\<close> returns a count \<open>n\<close> and an error, and has
  written \<open>n \<le> len(a)\<close> bytes to the front of \<open>a\<close>. A source is the script of the
  results of its successive \<open>Read\<close> calls: the bytes delivered (their number is
  \<open>n\<close>) and the error, \<open>None\<close> for Go's \<open>nil\<close>. Files and connections leave the rest
  of the buffer as it was. Once the script is used up every further call returns
  \<open>0, io.EOF\<close>, as \<open>os.File\<close> and \<open>net.Conn\<close> do past the end.
\<close>

datatype error = EOF | Failure string

type_synonym read_result = "string \<times> error option"
type_synonym ByteSource = "read_result list"

definition Read :: "string \<Rightarrow> read_result \<Rightarrow> nat \<times> error option \<times> string" where
  "Read a r =
     (let bs = take (length a) (fst r)
      in (length bs, snd r, bs @ drop (length bs) a))"

definition past_end :: read_result where
  "past_end = ([], Some EOF)"

section \<open>The reader goroutine\<close>

text \<open>
  What the goroutine of \<open>getLinesChannel\<close> does that others can see, in order: a
  string sent on \<open>strChan\<close>, an error printed (\<open>log.Println\<close> or \<open>fmt.Println\<close>),
  and \<open>close(strChan)\<close>. A goroutine that returns without \<open>Close\<close> leaves the
  consumer's \<open>range\<close> over the channel blocked for ever.
\<close>

datatype event = Send string | Println error | Close

text \<open>\<open>var a = make([]byte, 8)\<close>: eight zero bytes. \<open>var line string\<close>: empty.\<close>

definition make_a :: string where
  "make_a = replicate 8 NUL"

definition printed :: "error option \<Rightarrow> event list" where
  "printed err = (case err of None \<Rightarrow> [] | Some e \<Rightarrow> [Println e])"

text \<open>
  One iteration of the \<open>for\<close> loop of experiments/go/httpgo/main.go, lines 18-42:
  the events of the iteration, and the buffer and \<open>line\<close> it continues with, or
  \<open>None\<close> when it returns.
\<close>

definition iteration_file ::
  "string \<Rightarrow> string \<Rightarrow> read_result \<Rightarrow> event list \<times> (string \<times> string) option" where
  "iteration_file a line r =
     (case Read a r of (isEOF, err, a') \<Rightarrow>
        if isEOF = 0 then (printed err @ [Close], None)
        else
          let stringedA = a' in
          if strings_Contains stringedA [NL] then
            let str = strings_Split stringedA [NL];
                line1 = line @ strings_Join (take 1 str) []
            in (printed err @ [Send line1], Some (a', [] @ strings_Join (drop 1 str) []))
          else (printed err, Some (a', line @ a')))"

text \<open>
  The \<open>for { ... }\<close> around it: one \<open>Read\<close> per iteration, until an iteration
  returns. The three programs differ in the body only.
\<close>

type_synonym iteration =
  "string \<Rightarrow> string \<Rightarrow> read_result \<Rightarrow> event list \<times> (string \<times> string) option"

fun loop :: "iteration \<Rightarrow> string \<Rightarrow> string \<Rightarrow> ByteSource \<Rightarrow> event list" where
  "loop body a line [] = fst (body a line past_end)"
| "loop body a line (r # src) =
     (case body a line r of
        (evs, None) \<Rightarrow> evs
      | (evs, Some (a', line')) \<Rightarrow> evs @ loop body a' line' src)"

definition getLinesChannel_file :: "ByteSource \<Rightarrow> event list" where
  "getLinesChannel_file f = loop iteration_file make_a [] f"

text \<open>
  experiments/go/httpgo/cmd/tcplistener/main.go, lines 18-43: as above, with the
  string \<open>"EOF"\<close> sent before the channel is closed.
\<close>

definition iteration_tcp :: iteration where
  "iteration_tcp a line r =
     (case Read a r of (isEOF, err, a') \<Rightarrow>
        if isEOF = 0 then (printed err @ [Send ''EOF'', Close], None)
        else
          let stringedA = a' in
          if strings_Contains stringedA [NL] then
            let str = strings_Split stringedA [NL];
                line1 = line @ strings_Join (take 1 str) []
            in (printed err @ [Send line1], Some (a', [] @ strings_Join (drop 1 str) []))
          else (printed err, Some (a', line @ a')))"

definition getLinesChannel_tcp :: "ByteSource \<Rightarrow> event list" where
  "getLinesChannel_tcp f = loop iteration_tcp make_a [] f"

text \<open>
  The listener that serves each connection in a goroutine of its own
  (unnamed/part_000, the reader with the \<open>"\r\n"\<close> delimiter), lines 18-41: on a
  zero count or any error the loop sends a non-empty \<open>line\<close> and returns; it
  prints nothing and never closes the channel.
\<close>

definition iteration_crlf :: iteration where
  "iteration_crlf a line r =
     (case Read a r of (isEOF, err, a') \<Rightarrow>
        if isEOF = 0 \<or> err \<noteq> None then ((if line \<noteq> [] then [Send line] else []), None)
        else
          let stringedA = a' in
          if strings_Contains stringedA [CR, NL] then
            let str = strings_Split stringedA [CR, NL];
                line1 = line @ strings_Join (take 1 str) []
            in ([Send line1], Some (a', [] @ strings_Join (drop 1 str) []))
          else ([], Some (a', line @ a')))"

definition getLinesChannel_crlf :: "ByteSource \<Rightarrow> event list" where
  "getLinesChannel_crlf f = loop iteration_crlf make_a [] f"

text \<open>The strings the consumer receives, in order.\<close>

fun received :: "event list \<Rightarrow> string list" where
  "received [] = []"
| "received (Send s # evs) = s # received evs"
| "received (Println e # evs) = received evs"
| "received (Close # evs) = received evs"

text \<open>The bytes a source delivers, over all its reads.\<close>

definition delivered :: "ByteSource \<Rightarrow> string" where
  "delivered f = concat (map fst f)"

subsection \<open>The file reader's goroutine over any \<open>io.ReadCloser\<close>\<close>

text \<open>
  \<open>getLinesChannel\<close> takes any \<open>io.ReadCloser\<close>. The contract of \<open>io.Reader\<close>
  fixes the count, the error and the first \<open>n\<close> bytes of the buffer, and says of
  the rest: "Even if Read returns \<open>n < len(p)\<close>, it may use all of \<open>p\<close> as scratch
  space during the call." \<open>Read_leaves a r a'\<close>: \<open>a'\<close> is a buffer that a call
  with the result \<open>r\<close> may leave of \<open>a\<close>. The function \<open>Read\<close> above is the source
  that leaves \<open>a[n:]\<close> untouched.
\<close>

definition Read_leaves :: "string \<Rightarrow> read_result \<Rightarrow> string \<Rightarrow> bool" where
  "Read_leaves a r a' =
     (let bs = take (length a) (fst r)
      in length a' = length a \<and> take (length bs) a' = bs)"

text \<open>
  The loop of experiments/go/httpgo/main.go, lines 18-42, as a relation between the
  goroutine's variables, the results of the reads still to come, and the strings it
  goes on to send: one rule for each way through the body, the count and the error
  taken from the result, the buffer any that the call may leave.
\<close>

inductive sends_file :: "string \<Rightarrow> string \<Rightarrow> ByteSource \<Rightarrow> string list \<Rightarrow> bool" where
  past_the_end: "sends_file a line [] []"
| zero_count: "Read a r = (0, err, b) \<Longrightarrow> sends_file a line (r # src) []"
| has_newline:
    "Read a r = (isEOF, err, b) \<Longrightarrow> Read_leaves a r a' \<Longrightarrow> isEOF \<noteq> 0 \<Longrightarrow>
     strings_Contains a' [NL] \<Longrightarrow> str = strings_Split a' [NL] \<Longrightarrow>
     sends_file a' ([] @ strings_Join (drop 1 str) []) src out \<Longrightarrow>
     sends_file a line (r # src) ((line @ strings_Join (take 1 str) []) # out)"
| no_newline:
    "Read a r = (isEOF, err, b) \<Longrightarrow> Read_leaves a r a' \<Longrightarrow> isEOF \<noteq> 0 \<Longrightarrow>
     \<not> strings_Contains a' [NL] \<Longrightarrow>
     sends_file a' (line @ a') src out \<Longrightarrow>
     sends_file a line (r # src) out"

section \<open>The accept loop of the sequential listener\<close>

text \<open>
  \<open>listener.Accept()\<close> returns a connection and an error; the connection is an
  interface value, \<open>None\<close> for \<open>nil\<close>. The listener is the script of the results of
  its successive \<open>Accept\<close> calls; once it is used up \<open>Accept\<close> blocks. What the
  main goroutine does, in order: \<open>log.Println\<close> of an error and \<open>fmt.Println\<close> of
  a string; and the panic that ends the process. What a reader goroutine prints is
  among its own events (\<open>Println\<close>): it runs beside the main goroutine, and its
  place among the lines of main is not fixed.
\<close>

type_synonym accept_result = "ByteSource option \<times> error option"

datatype effect = Logged error | Printed string | Panic

text \<open>
  \<open>for s := range getLinesChannel(conn) { ... }\<close> of
  experiments/go/httpgo/cmd/tcplistener/main.go, lines 65-70: the body runs once for
  each string received, and the loop ends when the channel is closed.
\<close>

fun range_tcp :: "event list \<Rightarrow> effect list" where
  "range_tcp [] = []"
| "range_tcp (Send s # evs) =
     (if s = ''EOF'' then [Printed ''connection closed!''] else []) @ Printed s # range_tcp evs"
| "range_tcp (Println e # evs) = range_tcp evs"
| "range_tcp (Close # evs) = []"

text \<open>
  The \<open>for\<close> loop of \<open>main\<close>, lines 57-71 (the listener was opened). After an error
  is logged the body goes on with the connection it was given; \<open>f.Read(a)\<close> on a
  \<open>nil\<close> interface in the reader goroutine is a nil dereference, and a panic in any
  goroutine ends the process. The next \<open>Accept\<close> is reached only when the
  \<open>range\<close> loop has ended.
\<close>

fun main_tcp :: "accept_result list \<Rightarrow> effect list" where
  "main_tcp [] = []"
| "main_tcp ((conn, err) # listener) =
     (case err of None \<Rightarrow> [] | Some e \<Rightarrow> [Logged e]) @
     Printed ''connection accepted!'' #
     (case conn of
        None \<Rightarrow> [Panic]
      | Some f \<Rightarrow>
          let evs = getLinesChannel_tcp f
          in range_tcp evs @ (if Close \<in> set evs then main_tcp listener else []))"

text \<open>
  The reconstruction the specification asks for: the records concatenated, with one
  delimiter put back after each.
\<close>

definition reassembled :: "string \<Rightarrow> string list \<Rightarrow> string" where
  "reassembled delim recs = concat (map (\<lambda>l. l @ delim) recs)"

section \<open>Facts about the library functions\<close>

lemma strings_Index_byte_None: "strings_Index s [c] = None \<longleftrightarrow> c \<notin> set s"
  by (induction s) auto

lemma strings_Index_byte_take: "strings_Index s [c] = Some m \<Longrightarrow> c \<notin> set (take m s)"
proof (induction s arbitrary: m)
  case Nil
  then show ?case by simp
next
  case (Cons x xs)
  then show ?case by (auto split: if_splits)
qed

lemma strings_Split_byte_free: "p \<in> set (strings_Split s [c]) \<Longrightarrow> c \<notin> set p"
proof (induction s "[c]" arbitrary: p rule: strings_Split.induct)
  case (1 s)
  show ?case
  proof (cases "strings_Index s [c]")
    case None
    with "1.prems" have "p = s" by (simp add: strings_Split.simps)
    with None show ?thesis by (simp add: strings_Index_byte_None)
  next
    case (Some m)
    with "1.prems" consider "p = take m s" | "p \<in> set (strings_Split (drop (m + length [c]) s) [c])"
      by (auto simp: strings_Split.simps [of s])
    then show ?thesis
    proof cases
      case 1
      with Some show ?thesis by (simp add: strings_Index_byte_take)
    next
      case 2
      with "1.hyps" Some show ?thesis by simp
    qed
  qed
qed

lemma strings_Join_empty_sep: "strings_Join xs [] = concat xs"
  by (induction xs "[] :: string" rule: strings_Join.induct) simp_all

lemma strings_Join_slice_free:
  "set (strings_Join (take n (strings_Split s [c])) []) \<union>
   set (strings_Join (drop n (strings_Split s [c])) []) \<subseteq> - {c}"
  by (auto simp: strings_Join_empty_sep dest: in_set_takeD in_set_dropD strings_Split_byte_free)

section \<open>Facts about the events of a reader\<close>

lemma received_append: "received (xs @ ys) = received xs @ received ys"
  by (induction xs rule: received.induct) simp_all

lemma received_printed: "received (printed err) = []"
  by (simp add: printed_def split: option.splits)

lemma Send_printed: "Send s \<notin> set (printed err)"
  by (simp add: printed_def split: option.splits)

lemma Close_printed: "Close \<notin> set (printed err)"
  by (simp add: printed_def split: option.splits)

subsection \<open>Which readers close the channel\<close>

lemma iteration_file_returns_closed:
  "iteration_file a line r = (evs, None) \<Longrightarrow> Close \<in> set evs"
  by (cases "Read a r") (auto simp: iteration_file_def Let_def split: if_splits)

lemma loop_file_closes: "Close \<in> set (loop iteration_file a line f)"
proof (induction f arbitrary: a line)
  case Nil
  have "iteration_file a line past_end = (printed (Some EOF) @ [Close], None)"
    by (simp add: iteration_file_def Read_def past_end_def)
  then show ?case by simp
next
  case (Cons r f)
  obtain evs nxt where it: "iteration_file a line r = (evs, nxt)"
    by (cases "iteration_file a line r") auto
  show ?case
  proof (cases nxt)
    case None
    with it iteration_file_returns_closed [of a line r evs] show ?thesis by simp
  next
    case (Some st)
    with it Cons.IH show ?thesis by (cases st) simp
  qed
qed

lemma iteration_crlf_no_Close: "Close \<notin> set (fst (iteration_crlf a line r))"
  by (cases "Read a r") (simp add: iteration_crlf_def Let_def)

lemma loop_crlf_no_Close: "Close \<notin> set (loop iteration_crlf a line f)"
proof (induction f arbitrary: a line)
  case Nil
  show ?case by (simp add: iteration_crlf_no_Close)
next
  case (Cons r f)
  from iteration_crlf_no_Close [of a line r] Cons.IH show ?case
    by (cases "iteration_crlf a line r") (auto split: option.splits)
qed

subsection \<open>The accumulator of the newline readers holds no newline\<close>

lemma iteration_file_free:
  assumes "NL \<notin> set line" and "iteration_file a line r = (evs, nxt)"
  shows "(Send s \<in> set evs \<longrightarrow> NL \<notin> set s) \<and> (nxt = Some (a', line') \<longrightarrow> NL \<notin> set line')"
proof -
  obtain n err b where rd: "Read a r = (n, err, b)" by (cases "Read a r") auto
  let ?str = "strings_Split b [NL]"
  from strings_Join_slice_free [of 1 b NL]
  have parts: "NL \<notin> set (strings_Join (take 1 ?str) [])" "NL \<notin> set (strings_Join (drop 1 ?str) [])"
    by auto
  show ?thesis
  proof (cases "n = 0")
    case True
    with assms rd show ?thesis by (auto simp: iteration_file_def Send_printed)
  next
    case False
    show ?thesis
    proof (cases "strings_Contains b [NL]")
      case True
      with assms rd \<open>n \<noteq> 0\<close> parts show ?thesis
        by (auto simp: iteration_file_def Let_def Send_printed)
    next
      case False
      then have "NL \<notin> set b" by (simp add: strings_Contains_def strings_Index_byte_None)
      with assms rd \<open>n \<noteq> 0\<close> False show ?thesis
        by (auto simp: iteration_file_def Let_def Send_printed)
    qed
  qed
qed

lemma iteration_tcp_free:
  assumes "NL \<notin> set line" and "iteration_tcp a line r = (evs, nxt)"
  shows "(Send s \<in> set evs \<longrightarrow> NL \<notin> set s) \<and> (nxt = Some (a', line') \<longrightarrow> NL \<notin> set line')"
proof -
  obtain n err b where rd: "Read a r = (n, err, b)" by (cases "Read a r") auto
  let ?str = "strings_Split b [NL]"
  from strings_Join_slice_free [of 1 b NL]
  have parts: "NL \<notin> set (strings_Join (take 1 ?str) [])" "NL \<notin> set (strings_Join (drop 1 ?str) [])"
    by auto
  show ?thesis
  proof (cases "n = 0")
    case True
    with assms rd show ?thesis by (auto simp: iteration_tcp_def Send_printed NL_def)
  next
    case False
    show ?thesis
    proof (cases "strings_Contains b [NL]")
      case True
      with assms rd \<open>n \<noteq> 0\<close> parts show ?thesis
        by (auto simp: iteration_tcp_def Let_def Send_printed)
    next
      case False
      then have "NL \<notin> set b" by (simp add: strings_Contains_def strings_Index_byte_None)
      with assms rd \<open>n \<noteq> 0\<close> False show ?thesis
        by (auto simp: iteration_tcp_def Let_def Send_printed)
    qed
  qed
qed

lemma loop_free:
  assumes body: "\<And>a line r evs nxt s a' line'. NL \<notin> set line \<Longrightarrow> body a line r = (evs, nxt) \<Longrightarrow>
            (Send s \<in> set evs \<longrightarrow> NL \<notin> set s) \<and> (nxt = Some (a', line') \<longrightarrow> NL \<notin> set line')"
  shows "NL \<notin> set line \<Longrightarrow> Send s \<in> set (loop body a line src) \<Longrightarrow> NL \<notin> set s"
proof (induction src arbitrary: a line)
  case Nil
  obtain evs nxt where "body a line past_end = (evs, nxt)" by (cases "body a line past_end") auto
  with Nil body [of line a past_end evs nxt s] show ?case by simp
next
  case (Cons r src)
  obtain evs nxt where it: "body a line r = (evs, nxt)" by (cases "body a line r") auto
  show ?case
  proof (cases nxt)
    case None
    with Cons.prems it body [of line a r evs nxt s] show ?thesis by simp
  next
    case (Some st)
    obtain a' line' where st: "st = (a', line')" by (cases st) auto
    from body [of line a r evs nxt s a' line'] Cons.prems(1) it Some st
    have here: "Send s \<in> set evs \<longrightarrow> NL \<notin> set s" and nxt: "NL \<notin> set line'" by auto
    from Cons.prems(2) it Some st
    consider "Send s \<in> set evs" | "Send s \<in> set (loop body a' line' src)" by auto
    then show ?thesis
    proof cases
      case 1
      with here show ?thesis by simp
    next
      case 2
      with Cons.IH [OF nxt] show ?thesis by simp
    qed
  qed
qed

subsection \<open>The run of a source that leaves the buffer's tail untouched\<close>



subsection \<open>Reads that fill the buffer leave nothing to the source\<close>

lemma full_read_leaves:
  assumes "Read a r = (n, err, b)" and "Read_leaves a r a'" and "length a \<le> length (fst r)"
  shows "a' = b"
proof -
  let ?bs = "take (length a) (fst r)"
  from assms(3) have len: "length ?bs = length a" by simp
  from assms(1) assms(3) have "b = ?bs" by (auto simp: Read_def Let_def min_def)
  moreover have "a' = ?bs"
  proof -
    from assms(2) len have "length a' = length a" and "take (length a) a' = ?bs"
      by (simp_all add: Read_leaves_def Let_def)
    then show ?thesis by (metis take_all order_refl)
  qed
  ultimately show ?thesis by simp
qed

lemma sends_file_full_reads:
  "sends_file a line f out \<Longrightarrow> (\<And>r. r \<in> set f \<Longrightarrow> length a \<le> length (fst r)) \<Longrightarrow>
   out = received (loop iteration_file a line f)"
proof (induction rule: sends_file.induct)
  case (past_the_end a line)
  have "iteration_file a line past_end = (printed (Some EOF) @ [Close], None)"
    by (simp add: iteration_file_def Read_def past_end_def)
  then show ?case by (simp add: received_append received_printed)
next
  case (zero_count a r err b line src)
  then have "iteration_file a line r = (printed err @ [Close], None)"
    by (simp add: iteration_file_def)
  then show ?case by (simp add: received_append received_printed)
next
  case (has_newline a r isEOF err b a' str src out line)
  from has_newline.hyps(1,2) has_newline.prems [of r] have same: "a' = b"
    by (auto intro: full_read_leaves)
  from has_newline.hyps(2) have "length a' = length a" by (simp add: Read_leaves_def Let_def)
  with has_newline.prems have "\<And>r. r \<in> set src \<Longrightarrow> length a' \<le> length (fst r)" by simp
  then have rest: "out = received (loop iteration_file a' ([] @ strings_Join (drop 1 str) []) src)"
    by (rule has_newline.IH)
  from has_newline.hyps same have "iteration_file a line r =
      (printed err @ [Send (line @ strings_Join (take 1 str) [])],
       Some (a', [] @ strings_Join (drop 1 str) []))"
    by (simp add: iteration_file_def Let_def)
  with rest show ?case by (simp add: received_append received_printed)
next
  case (no_newline a r isEOF err b a' line src out)
  from no_newline.hyps(1,2) no_newline.prems [of r] have same: "a' = b"
    by (auto intro: full_read_leaves)
  from no_newline.hyps(2) have "length a' = length a" by (simp add: Read_leaves_def Let_def)
  with no_newline.prems have "\<And>r. r \<in> set src \<Longrightarrow> length a' \<le> length (fst r)" by simp
  then have rest: "out = received (loop iteration_file a' (line @ a') src)"
    by (rule no_newline.IH)
  from no_newline.hyps same have "iteration_file a line r = (printed err, Some (a', line @ a'))"
    by (simp add: iteration_file_def Let_def)
  with rest show ?case by (simp add: received_append received_printed)
qed

section \<open>The claims of the specification\<close>

text \<open>
  C1 (chunking invariance): the records sent should not depend on how the source cuts
  the input into reads, also when a two-byte delimiter is cut between two reads.
  The programs do depend on it. The file reader is given the four bytes
  \<open>a \n b \n\<close> in one read and then one byte per read: it sends one record the first
  time, and two records padded with the zero bytes of the buffer the second time.
  The \<open>"\r\n"\<close> reader is given sixteen bytes in two full reads, the first ending
  in \<open>\r\<close> and the second starting with \<open>\n\<close>: it sends all sixteen as one
  record, the delimiter inside it.
\<close>

theorem chunking_changes_records:
  "delivered [(''a\<newline>b\<newline>'', None)]
     = delivered [(''a'', None), (''\<newline>'', None), (''b'', None), (''\<newline>'', None)]
   \<and> received (getLinesChannel_file [(''a\<newline>b\<newline>'', None)]) = [''a'']
   \<and> received (getLinesChannel_file
         [(''a'', None), (''\<newline>'', None), (''b'', None), (''\<newline>'', None)])
       = [''a'' @ replicate 7 NUL, replicate 7 NUL @ ''b'' @ replicate 7 NUL]
   \<and> received (getLinesChannel_crlf [(''abcdefg'' @ [CR], None), (NL # ''hijklmn'', None)])
       = [''abcdefg'' @ [CR, NL] @ ''hijklmn'']"
  by code_simp

text \<open>
  C2 (read errors): a read error other than end-of-stream should end the sequence and
  reach the consumer. In the file reader an error that comes with bytes is printed and
  the loop goes on to the next read; an error that comes with no bytes is printed and
  the channel is closed like at end of file. The \<open>"\r\n"\<close> reader returns on the
  error, and sends and prints nothing about it.
\<close>

theorem read_error_is_only_printed:
  "getLinesChannel_file
     [(''abcdefg\<newline>'', Some (Failure ''connection reset'')), (''hijklmn\<newline>'', None)]
     = [Println (Failure ''connection reset''), Send ''abcdefg'', Send ''hijklmn'',
        Println EOF, Close]
   \<and> getLinesChannel_file [([], Some (Failure ''connection reset''))]
     = [Println (Failure ''connection reset''), Close]
   \<and> getLinesChannel_crlf [(''abc'', Some (Failure ''connection reset''))] = []"
  by code_simp

text \<open>
  C3 (no byte duplicated or dropped): the records, with a delimiter put back after
  each, should be the bytes read. After the reads \<open>a b \n\<close> and \<open>c \n\<close> the
  file reader's second record starts with the five zero bytes left in the buffer by the
  first read, and after one full read \<open>a \n b \n c \n d \n\<close> only \<open>a\<close> is sent.
\<close>

theorem records_do_not_reassemble:
  "received (getLinesChannel_file [(''ab\<newline>'', None), (''c\<newline>'', None)])
     = [''ab'', replicate 5 NUL @ ''c'']
   \<and> reassembled [NL] (received (getLinesChannel_file [(''ab\<newline>'', None), (''c\<newline>'', None)]))
     \<noteq> delivered [(''ab\<newline>'', None), (''c\<newline>'', None)]
   \<and> reassembled [NL] (received (getLinesChannel_file [(''a\<newline>b\<newline>c\<newline>d\<newline>'', None)]))
     = ''a\<newline>''
   \<and> delivered [(''a\<newline>b\<newline>c\<newline>d\<newline>'', None)] = ''a\<newline>b\<newline>c\<newline>d\<newline>''"
  by code_simp

text \<open>
  C4 (one record per delimiter): a read that holds several delimiters should give one
  record for each. The readers send the text before the first delimiter only, and keep
  the rest of the read with its delimiters taken out: from the reads
  \<open>ab \n cd \n ef\<close> and \<open>\n gh \n ij \n k\<close> the file reader sends \<open>ab\<close> and
  \<open>cdef\<close>, and from \<open>a \r\n b \r\n cd\<close> the \<open>"\r\n"\<close> reader sends \<open>a\<close>
  and, at the end, \<open>bcd\<close>.
\<close>

theorem one_record_per_read:
  "getLinesChannel_file [(''ab\<newline>cd\<newline>ef'', None), (''\<newline>gh\<newline>ij\<newline>k'', None)]
     = [Send ''ab'', Send ''cdef'', Println EOF, Close]
   \<and> getLinesChannel_crlf [(''a'' @ [CR, NL] @ ''b'' @ [CR, NL] @ ''cd'', None)]
     = [Send ''a'', Send ''bcd'']"
  by code_simp

text \<open>
  C5 (trailing partial line): bytes left in the accumulator at end of stream should be
  sent as a last record. After one full read \<open>abcdefgh\<close> the file reader closes the
  channel with nothing sent, and the sequential listener's reader sends the string
  \<open>EOF\<close> in their place; only the \<open>"\r\n"\<close> reader sends them.
\<close>

theorem residual_line_is_dropped:
  "getLinesChannel_file [(''abcdefgh'', None)] = [Println EOF, Close]
   \<and> getLinesChannel_tcp [(''abcdefgh'', None)] = [Println EOF, Send ''EOF'', Close]
   \<and> getLinesChannel_crlf [(''abcdefgh'', None)] = [Send ''abcdefgh'']"
  by code_simp

text \<open>
  C6 (the output ends): after the last record the channel should be closed, so that
  the consumer's loop ends. The \<open>"\r\n"\<close> reader returns without closing it: after
  the read \<open>hello \r\n\<close> and the end of the stream its events are two sends and no
  \<open>Close\<close>, where the file reader ends with \<open>Close\<close>.
\<close>

theorem crlf_reader_never_closes:
  "getLinesChannel_crlf [(''hello'' @ [CR, NL], None)] = [Send ''hello'', Send [NUL]]
   \<and> Close \<notin> set (getLinesChannel_crlf f)
   \<and> Close \<in> set (getLinesChannel_file f)"
proof -
  have "getLinesChannel_crlf [(''hello'' @ [CR, NL], None)] = [Send ''hello'', Send [NUL]]"
    by code_simp
  then show ?thesis
    by (simp add: getLinesChannel_crlf_def getLinesChannel_file_def loop_crlf_no_Close
        loop_file_closes)
qed

text \<open>
  C7 (accept errors): an error of \<open>Accept\<close> should be logged and the loop should go
  on to the next connection. The loop logs it and then serves the \<open>nil\<close> connection
  that came with it: the process panics, and the connection accepted next is never
  served.
\<close>

theorem accept_error_ends_the_process:
  "main_tcp [(None, Some (Failure ''too many open files'')), (Some [(''hello\<newline>'', None)], None)]
     = [Logged (Failure ''too many open files''), Printed ''connection accepted!'', Panic]
   \<and> main_tcp [(Some [(''hello\<newline>'', None)], None)]
     = [Printed ''connection accepted!'', Printed ''hello'',
        Printed ''connection closed!'', Printed ''EOF'']"
  by code_simp


text \<open>
  C10 (no newline in a record): no string sent by the two newline readers holds the
  byte \<open>\n\<close>; the accumulator \<open>line\<close> never holds one, since only pieces of a
  split and buffers without a newline are appended to it.
\<close>

theorem sent_lines_have_no_newline:
  "Send s \<in> set (getLinesChannel_file f) \<or> Send s \<in> set (getLinesChannel_tcp f) \<Longrightarrow> NL \<notin> set s"
proof (erule disjE)
  assume "Send s \<in> set (getLinesChannel_file f)"
  then show ?thesis
    unfolding getLinesChannel_file_def
    by (rule loop_free [where body = iteration_file, rotated 2]) (auto dest: iteration_file_free)
next
  assume "Send s \<in> set (getLinesChannel_tcp f)"
  then show ?thesis
    unfolding getLinesChannel_tcp_def
    by (rule loop_free [where body = iteration_tcp, rotated 2]) (auto dest: iteration_tcp_free)
qed

theorem sent_lines_have_no_newline_witness:
  "Send ''second'' \<in> set (getLinesChannel_file [(''first\<newline>se'', None), (''cond\<newline>ab'', None)])
   \<and> Send ''EOF'' \<in> set (getLinesChannel_tcp [(''first\<newline>se'', None), (''cond\<newline>ab'', None)])
   \<and> NL \<notin> set ''second'' \<and> NL \<notin> set ''EOF''"
proof -
  let ?f = "[(''first\<newline>se'', None), (''cond\<newline>ab'', None)] :: ByteSource"
  have in_file: "Send ''second'' \<in> set (getLinesChannel_file ?f)" by code_simp
  have in_tcp: "Send ''EOF'' \<in> set (getLinesChannel_tcp ?f)" by code_simp
  from in_file have "NL \<notin> set ''second''"
    by (rule sent_lines_have_no_newline [OF disjI1])
  moreover from in_tcp have "NL \<notin> set ''EOF''"
    by (rule sent_lines_have_no_newline [OF disjI2])
  ultimately show ?thesis using in_file in_tcp by simp
qed

end
